theory Spec2Isabelle
  imports Main "HOL-Library.Sublist" "HOL-Library.List_Lexorder"
begin

section \<open>Python values\<close>

text \<open>
  A \<^verbatim>\<open>bytes\<close> object is a list of 8-bit characters. A \<^verbatim>\<open>str\<close> is a list of Unicode
  code points, so that \<^verbatim>\<open>sorted\<close> on strings is the lexicographic order on lists of
  numbers. \<open>ascii\<close> turns an ASCII literal into a \<^verbatim>\<open>str\<close>. A \<^verbatim>\<open>pathlib.Path\<close> is the list of
  its components. A caught or uncaught exception is represented by its message
  \<^verbatim>\<open>str(e)\<close>, the only part of it that the scripts use.
\<close>

type_synonym bytes = "char list"
type_synonym codepoint = nat
type_synonym str = "codepoint list"
type_synonym path = "str list"

definition ascii :: "string \<Rightarrow> str" where
  "ascii s = map of_char s"

fun decimal :: "nat \<Rightarrow> str" where
  "decimal n = (if n < 10 then [48 + n] else decimal (n div 10) @ [48 + n mod 10])"

declare decimal.simps [simp del]

definition str_int :: "int \<Rightarrow> str" where
  "str_int i = (if i < 0 then ascii ''-'' @ decimal (nat (- i)) else decimal (nat i))"

definition zero_pad :: "nat \<Rightarrow> nat \<Rightarrow> str" where
  "zero_pad w n = replicate (w - length (decimal n)) 48 @ decimal n"

definition startswith :: "'a list \<Rightarrow> 'a list \<Rightarrow> bool" where
  "startswith s p = prefix p s"

section \<open>Calendar dates (\<^verbatim>\<open>datetime.date\<close>)\<close>

text \<open>
  A \<^verbatim>\<open>datetime.date\<close> is a day of the proleptic Gregorian calendar with year 1 to 9999.
  Dates compare as the triples (year, month, day). Adding \<^verbatim>\<open>timedelta(days=1)\<close> gives
  the following calendar day and raises \<^verbatim>\<open>OverflowError\<close> past 9999-12-31 (\<open>None\<close>).
  \<^verbatim>\<open>isoformat()\<close> is \<^verbatim>\<open>"%04d-%02d-%02d" % (year, month, day)\<close>.
\<close>

record date =
  year :: nat
  month :: nat
  day :: nat

definition is_leap :: "nat \<Rightarrow> bool" where
  "is_leap y = (y mod 4 = 0 \<and> (y mod 100 \<noteq> 0 \<or> y mod 400 = 0))"

definition days_in_month :: "nat \<Rightarrow> nat \<Rightarrow> nat" where
  "days_in_month y m =
     (if m = 2 \<and> is_leap y then 29
      else if 1 \<le> m \<and> m \<le> 12 then [31, 28, 31, 30, 31, 30, 31, 31, 30, 31, 30, 31] ! (m - 1)
      else 0)"

definition valid_date :: "date \<Rightarrow> bool" where
  "valid_date d =
     (1 \<le> year d \<and> year d \<le> 9999 \<and> 1 \<le> month d \<and> month d \<le> 12 \<and>
      1 \<le> day d \<and> day d \<le> days_in_month (year d) (month d))"

definition date_le :: "date \<Rightarrow> date \<Rightarrow> bool" where
  "date_le a b =
     (year a < year b \<or>
      (year a = year b \<and> (month a < month b \<or> (month a = month b \<and> day a \<le> day b))))"

definition date_lt :: "date \<Rightarrow> date \<Rightarrow> bool" where
  "date_lt a b =
     (year a < year b \<or>
      (year a = year b \<and> (month a < month b \<or> (month a = month b \<and> day a < day b))))"

definition add_one_day :: "date \<Rightarrow> date option" where
  "add_one_day d =
     (if day d < days_in_month (year d) (month d) then Some (d\<lparr>day := day d + 1\<rparr>)
      else if month d < 12 then Some (d\<lparr>month := month d + 1, day := 1\<rparr>)
      else if year d < 9999 then Some (d\<lparr>year := year d + 1, month := 1, day := 1\<rparr>)
      else None)"

definition isoformat :: "date \<Rightarrow> str" where
  "isoformat d =
     zero_pad 4 (year d) @ ascii ''-'' @ zero_pad 2 (month d) @ ascii ''-'' @ zero_pad 2 (day d)"

section \<open>The fetch script (\<^verbatim>\<open>fetch_debates_2026.py\<close>)\<close>

subsection \<open>The content sniff\<close>

text \<open>
  \<^verbatim>\<open>bytes.lstrip()\<close> removes leading ASCII whitespace (space, tab, newline, carriage
  return, vertical tab, form feed); \<^verbatim>\<open>bytes.lower()\<close> maps the ASCII capitals to small
  letters and leaves every other byte alone.
\<close>

definition ascii_whitespace :: bytes where
  "ascii_whitespace = [CHR '' '', CHR 0x09, CHR 0x0A, CHR 0x0D, CHR 0x0B, CHR 0x0C]"

definition lstrip :: "bytes \<Rightarrow> bytes" where
  "lstrip b = dropWhile (\<lambda>c. c \<in> set ascii_whitespace) b"

definition lower_byte :: "char \<Rightarrow> char" where
  "lower_byte c =
     (case map_of (zip ''ABCDEFGHIJKLMNOPQRSTUVWXYZ'' ''abcdefghijklmnopqrstuvwxyz'') c of
        None \<Rightarrow> c
      | Some l \<Rightarrow> l)"

definition lower :: "bytes \<Rightarrow> bytes" where
  "lower b = map lower_byte b"

definition looks_like_xml :: "bytes \<Rightarrow> bool" where
  "looks_like_xml content =
     (if content = [] \<or> length content < 100 then False
      else
        let head = lower (take 500 (lstrip content)) in
        if startswith head ''<!doctype html'' \<or> startswith head ''<html'' then False
        else startswith head ''<?xml'' \<or> startswith head ''<'')"

subsection \<open>The world the script runs in, and what it does to it\<close>

text \<open>
  What a call raises is an instance of \<^verbatim>\<open>Exception\<close> (\<open>Exc\<close>), which the \<^verbatim>\<open>except\<close> clause of
  line 69 catches, or another \<^verbatim>\<open>BaseException\<close> such as \<^verbatim>\<open>KeyboardInterrupt\<close> (\<open>Base\<close>), which
  it does not catch; either carries its message \<^verbatim>\<open>str(e)\<close>.

  The script's environment says what each call does that can fail:
  \<^item> \<^verbatim>\<open>session.get(url, timeout=30)\<close> raises (\<open>Inl\<close>) or returns a response;
  \<^item> \<^verbatim>\<open>write_bytes\<close> returns, or raises and leaves the file as it was or did not create it
    (\<open>None\<close>) or with some contents (\<open>Some\<close>): it opens the file for writing, which empties
    it, before it writes;
  \<^item> \<^verbatim>\<open>print\<close> of a line, \<^verbatim>\<open>time.sleep\<close> at the end of the pass for a date, and \<^verbatim>\<open>mkdir\<close> raise
    or return.
  It also holds the home directory and today's date. The headers and the timeout are the
  same for every request and are left out.

  The state holds the two counters of \<^verbatim>\<open>main\<close> and three logs of its effects, in the
  order they happen: the URLs \<^verbatim>\<open>session.get\<close> was called with, the contents that each call of
  \<^verbatim>\<open>write_bytes\<close> left in a file, and the lines printed (a \<^verbatim>\<open>print\<close> that raises prints
  nothing).

  One run asks for no URL twice (lemma \<open>distinct_urls\<close> below), and a path and a line belong
  to one date only, so functions of the URL, the path, the line and the date describe
  every run.
\<close>

datatype exc = Exc str | Base str

datatype write_result = Write_ok | Write_raises exc "bytes option"

record response =
  status_code :: int
  content :: bytes

record world =
  http_get :: "str \<Rightarrow> exc + response"
  write_bytes :: "path \<Rightarrow> bytes \<Rightarrow> write_result"
  print_raises :: "str \<Rightarrow> exc option"
  sleep_raises :: "date \<Rightarrow> exc option"
  mkdir :: "path \<Rightarrow> exc option"
  home :: path
  today :: date

record fetch_state =
  requests :: "str list"
  written :: "(path \<times> bytes) list"
  stdout :: "str list"
  saved :: int
  missing :: int

definition BASE_URL :: str where
  "BASE_URL = ascii ''https://data.oireachtas.ie/akn/ie/debateRecord/dail''"

definition OUT_DIR :: "world \<Rightarrow> path" where
  "OUT_DIR w = home w @ [ascii ''2026'']"

definition START_DATE :: date where
  "START_DATE = \<lparr>year = 2026, month = 1, day = 1\<rparr>"

definition END_DATE :: "world \<Rightarrow> date" where
  "END_DATE w = today w"

definition path_name :: "path \<Rightarrow> str" where
  "path_name p = (if p = [] then [] else last p)"

definition url_for :: "str \<Rightarrow> str" where
  "url_for date_str = BASE_URL @ ascii ''/'' @ date_str @ ascii ''/debate/mul@/main.xml''"

definition file_name_for :: "str \<Rightarrow> str" where
  "file_name_for date_str = date_str @ ascii ''_mul@.xml''"

definition saved_line :: "path \<Rightarrow> str" where
  "saved_line out_file = [0x2705] @ ascii '' '' @ path_name out_file"

definition warning_line :: "str \<Rightarrow> str \<Rightarrow> str" where
  "warning_line date_str e = [0x26A0, 0xFE0F] @ ascii ''  '' @ date_str @ ascii '': '' @ e"

text \<open>A call of \<^verbatim>\<open>print\<close>: the state it leaves, and what it raised if it did.\<close>

definition print_line :: "world \<Rightarrow> str \<Rightarrow> fetch_state \<Rightarrow> fetch_state \<times> exc option" where
  "print_line w text s =
     (case print_raises w text of
        Some x \<Rightarrow> (s, Some x)
      | None \<Rightarrow> (s\<lparr>stdout := stdout s @ [text]\<rparr>, None))"

text \<open>
  The body of the \<^verbatim>\<open>try\<close> statement (lines 58 to 67): the state it leaves, and what ended
  it if something was raised. The \<^verbatim>\<open>print\<close> of line 65 comes after \<^verbatim>\<open>saved += 1\<close>.
\<close>

definition try_body :: "world \<Rightarrow> str \<Rightarrow> path \<Rightarrow> fetch_state \<Rightarrow> fetch_state \<times> exc option" where
  "try_body w url out_file s =
     (let s1 = s\<lparr>requests := requests s @ [url]\<rparr> in
      case http_get w url of
        Inl x \<Rightarrow> (s1, Some x)
      | Inr r \<Rightarrow>
          if status_code r = 404 then (s1\<lparr>missing := missing s1 + 1\<rparr>, None)
          else if status_code r = 200 \<and> looks_like_xml (content r) then
            (case write_bytes w out_file (content r) of
               Write_raises x left \<Rightarrow>
                 (s1\<lparr>written := written s1 @
                       (case left of None \<Rightarrow> [] | Some c \<Rightarrow> [(out_file, c)])\<rparr>, Some x)
             | Write_ok \<Rightarrow>
                 print_line w (saved_line out_file)
                   (s1\<lparr>written := written s1 @ [(out_file, content r)],
                       saved := saved s1 + 1\<rparr>))
          else (s1\<lparr>missing := missing s1 + 1\<rparr>, None))"

text \<open>
  One pass of the loop body for the date \<open>d\<close>, up to the end of the \<^verbatim>\<open>try\<close> statement (lines
  53 to 70): the state it leaves, and what escapes from it. The \<^verbatim>\<open>except\<close> clause handles an
  \<^verbatim>\<open>Exception\<close> by printing; what that \<^verbatim>\<open>print\<close> raises, and what is no \<^verbatim>\<open>Exception\<close>,
  escapes.
\<close>

definition iteration :: "world \<Rightarrow> date \<Rightarrow> fetch_state \<Rightarrow> fetch_state \<times> exc option" where
  "iteration w d s =
     (let date_str = isoformat d;
          url = url_for date_str;
          out_file = OUT_DIR w @ [file_name_for date_str]
      in case try_body w url out_file s of
           (s', None) \<Rightarrow> (s', None)
         | (s', Some (Exc e)) \<Rightarrow> print_line w (warning_line date_str e) s'
         | (s', Some (Base e)) \<Rightarrow> (s', Some (Base e)))"

text \<open>
  The \<^verbatim>\<open>while\<close> loop (lines 52 to 73): the state it leaves, and the exception that ended it
  if one did. What escapes from a pass ends the loop. The date is advanced and the script
  sleeps outside the \<^verbatim>\<open>try\<close>, so an \<^verbatim>\<open>OverflowError\<close> of the addition, or what \<^verbatim>\<open>time.sleep\<close>
  raises, ends the loop as well.
\<close>

function fetch_loop :: "world \<Rightarrow> date \<Rightarrow> date \<Rightarrow> fetch_state \<Rightarrow> fetch_state \<times> exc option" where
  "fetch_loop w end_date d s =
     (if date_le d end_date then
        (case iteration w d s of
           (s', Some x) \<Rightarrow> (s', Some x)
         | (s', None) \<Rightarrow>
             (case add_one_day d of
                None \<Rightarrow> (s', Some (Exc (ascii ''date value out of range'')))
              | Some d' \<Rightarrow>
                  (case sleep_raises w d of
                     Some x \<Rightarrow> (s', Some x)
                   | None \<Rightarrow> fetch_loop w end_date d' s')))
      else (s, None))"
  by pat_completeness auto
termination
  by (relation "measures [\<lambda>(w, e, d, s). 9999 - year d, \<lambda>(w, e, d, s). 12 - month d,
                          \<lambda>(w, e, d, s). days_in_month (year d) (month d) - day d]")
     (auto simp: add_one_day_def split: if_splits)

declare fetch_loop.simps [simp del]

definition init_state :: fetch_state where
  "init_state = \<lparr>requests = [], written = [], stdout = [], saved = 0, missing = 0\<rparr>"

definition fetch_main :: "world \<Rightarrow> fetch_state \<times> exc option" where
  "fetch_main w =
     (case mkdir w (OUT_DIR w) of
        Some x \<Rightarrow> (init_state, Some x)
      | None \<Rightarrow>
          (case fetch_loop w (END_DATE w) START_DATE init_state of
             (s, Some x) \<Rightarrow> (s, Some x)
           | (s, None) \<Rightarrow>
               (case print_line w ([10] @ ascii ''Done'') s of
                  (s1, Some x) \<Rightarrow> (s1, Some x)
                | (s1, None) \<Rightarrow>
                    (case print_line w (ascii ''Saved XMLs: '' @ str_int (saved s1)) s1 of
                       (s2, Some x) \<Rightarrow> (s2, Some x)
                     | (s2, None) \<Rightarrow>
                         print_line w
                           (ascii ''No record / skipped: '' @ str_int (missing s2)) s2))))"

text \<open>
  Notions used to state what the loop does.
  \<^item> \<open>dates_from d e\<close> lists the values the loop variable takes when nothing ends the loop
    early: the days from \<open>d\<close> while the loop condition holds.
  \<^item> \<open>raised w d\<close> is what ends the \<^verbatim>\<open>try\<close> body for the date \<open>d\<close>, if anything;
    \<open>accepted w d\<close> says that the response for \<open>d\<close> has status 200 and passes the content
    sniff; \<open>write_returned w d\<close> says that moreover \<^verbatim>\<open>write_bytes\<close> returned.
  \<^item> \<open>escape w d\<close> is what escapes from the pass for \<open>d\<close>, if anything.
  \<^item> \<open>undisturbed w ds\<close> says that for the dates \<open>ds\<close> nothing escapes from the pass and
    \<^verbatim>\<open>time.sleep\<close> returns.
  \<^item> \<open>visited w e d\<close> lists the dates for which the loop starts a pass.
  None of the first five depends on the state (lemmas \<open>raised_any_state\<close> and
  \<open>escape_any_state\<close> below).
\<close>

function dates_from :: "date \<Rightarrow> date \<Rightarrow> date list" where
  "dates_from d end_date =
     (if date_le d end_date then
        d # (case add_one_day d of None \<Rightarrow> [] | Some d' \<Rightarrow> dates_from d' end_date)
      else [])"
  by pat_completeness auto
termination
  by (relation "measures [\<lambda>(d, e). 9999 - year d, \<lambda>(d, e). 12 - month d,
                          \<lambda>(d, e). days_in_month (year d) (month d) - day d]")
     (auto simp: add_one_day_def split: if_splits)

declare dates_from.simps [simp del]

definition raised :: "world \<Rightarrow> date \<Rightarrow> exc option" where
  "raised w d =
     snd (try_body w (url_for (isoformat d)) (OUT_DIR w @ [file_name_for (isoformat d)]) init_state)"



definition escape :: "world \<Rightarrow> date \<Rightarrow> exc option" where
  "escape w d = snd (iteration w d init_state)"

definition undisturbed :: "world \<Rightarrow> date list \<Rightarrow> bool" where
  "undisturbed w ds = list_all (\<lambda>d. escape w d = None \<and> sleep_raises w d = None) ds"

function visited :: "world \<Rightarrow> date \<Rightarrow> date \<Rightarrow> date list" where
  "visited w end_date d =
     (if date_le d end_date then
        d # (case escape w d of
               Some x \<Rightarrow> []
             | None \<Rightarrow>
                 (case add_one_day d of
                    None \<Rightarrow> []
                  | Some d' \<Rightarrow>
                      (case sleep_raises w d of
                         Some x \<Rightarrow> []
                       | None \<Rightarrow> visited w end_date d')))
      else [])"
  by pat_completeness auto
termination
  by (relation "measures [\<lambda>(w, e, d). 9999 - year d, \<lambda>(w, e, d). 12 - month d,
                          \<lambda>(w, e, d). days_in_month (year d) (month d) - day d]")
     (auto simp: add_one_day_def split: if_splits)

declare visited.simps [simp del]

text \<open>
  Example worlds for closed instances. In \<open>demo_world\<close> the server has a record for 10 and
  13 February 2026, times out on the 11th and answers 404 otherwise; writing the file of
  the 13th fails after the file was opened and leaves it empty; printing and sleeping
  succeed. \<open>ascii_console_world\<close> is the same, but its standard output cannot encode
  characters beyond ASCII, so that printing a line with such a character raises
  \<^verbatim>\<open>UnicodeEncodeError\<close>.
\<close>

definition xml_body :: bytes where
  "xml_body =
     ''<?xml version=\"1.0\" encoding=\"UTF-8\"?>'' @ replicate 80 CHR '' '' @ ''<akomaNtoso/>''"

definition demo_world :: world where
  "demo_world =
     \<lparr>http_get = (\<lambda>url.
        if url = url_for (ascii ''2026-02-10'') \<or> url = url_for (ascii ''2026-02-13'')
        then Inr \<lparr>status_code = 200, content = xml_body\<rparr>
        else if url = url_for (ascii ''2026-02-11'') then Inl (Exc (ascii ''Read timed out.''))
        else Inr \<lparr>status_code = 404, content = []\<rparr>),
      write_bytes = (\<lambda>p b.
        if path_name p = ascii ''2026-02-13_mul@.xml''
        then Write_raises (Exc (ascii ''No space left on device'')) (Some [])
        else Write_ok),
      print_raises = (\<lambda>text. None),
      sleep_raises = (\<lambda>d. None),
      mkdir = (\<lambda>p. None),
      home = [ascii ''/'', ascii ''home'', ascii ''david''],
      today = \<lparr>year = 2026, month = 2, day = 13\<rparr>\<rparr>"

definition ascii_console_world :: world where
  "ascii_console_world =
     demo_world\<lparr>print_raises := (\<lambda>text.
        if list_ex (\<lambda>c. 127 < c) text then Some (Exc (ascii ''ordinal not in range(128)''))
        else None)\<rparr>"

section \<open>The index generator (\<^verbatim>\<open>generate_available_dates.py\<close>)\<close>

subsection \<open>The regular expression\<close>

text \<open>
  The pattern is \<^verbatim>\<open>(\d{4}-\d{2}-\d{2})_mul@\.xml$\<close>, on \<^verbatim>\<open>str\<close>. There \<^verbatim>\<open>\d\<close> matches every
  Unicode decimal digit: below code point 128 these are \<^verbatim>\<open>0\<close> to \<^verbatim>\<open>9\<close>; above, they are
  given by the interpreter's Unicode tables, the parameter \<open>nd\<close>. Without the
  \<^verbatim>\<open>MULTILINE\<close> flag \<^verbatim>\<open>$\<close> matches at the end of the string and just before a newline
  that is the last character of the string.

  \<open>match_at nd s\<close> matches the pattern at the start of \<open>s\<close> and gives group 1;
  \<open>search\<close> tries each start position from the left, as \<^verbatim>\<open>Pattern.search\<close> does.
\<close>

definition regex_digit :: "(codepoint \<Rightarrow> bool) \<Rightarrow> codepoint \<Rightarrow> bool" where
  "regex_digit nd c = (if c < 128 then 48 \<le> c \<and> c \<le> 57 else nd c)"

definition date_group :: "(codepoint \<Rightarrow> bool) \<Rightarrow> str \<Rightarrow> bool" where
  "date_group nd g =
     (length g = 10 \<and>
      list_all (regex_digit nd) (take 4 g) \<and> take 1 (drop 4 g) = ascii ''-'' \<and>
      list_all (regex_digit nd) (take 2 (drop 5 g)) \<and> take 1 (drop 7 g) = ascii ''-'' \<and>
      list_all (regex_digit nd) (take 2 (drop 8 g)))"

definition match_at :: "(codepoint \<Rightarrow> bool) \<Rightarrow> str \<Rightarrow> str option" where
  "match_at nd s =
     (let g = take 10 s; rest = drop 10 s in
      if date_group nd g \<and> (rest = ascii ''_mul@.xml'' \<or> rest = ascii ''_mul@.xml'' @ [10])
      then Some g else None)"

fun search :: "(codepoint \<Rightarrow> bool) \<Rightarrow> str \<Rightarrow> str option" where
  "search nd [] = match_at nd []"
| "search nd (c # cs) =
     (case match_at nd (c # cs) of Some g \<Rightarrow> Some g | None \<Rightarrow> search nd cs)"

subsection \<open>Collecting, sorting and writing the dates\<close>

definition add_match :: "(codepoint \<Rightarrow> bool) \<Rightarrow> str \<Rightarrow> str set \<Rightarrow> str set" where
  "add_match nd f dates = (case search nd f of Some g \<Rightarrow> insert g dates | None \<Rightarrow> dates)"

definition collect_dates :: "(codepoint \<Rightarrow> bool) \<Rightarrow> str list \<Rightarrow> str set" where
  "collect_dates nd files = fold (add_match nd) files {}"

definition sorted_dates :: "(codepoint \<Rightarrow> bool) \<Rightarrow> str list \<Rightarrow> str list" where
  "sorted_dates nd files = sorted_list_of_set (collect_dates nd files)"

text \<open>
  \<^verbatim>\<open>json.dumps(xs, indent=2)\<close> for a list of strings, with the default
  \<^verbatim>\<open>ensure_ascii=True\<close>: every character outside the printable ASCII range is escaped,
  one beyond the Basic Multilingual Plane as a surrogate pair.
\<close>

definition hex_digit :: "nat \<Rightarrow> codepoint" where
  "hex_digit n = (if n < 10 then 48 + n else 87 + n)"

definition u_escape :: "nat \<Rightarrow> str" where
  "u_escape n =
     [92, 117, hex_digit (n div 4096 mod 16), hex_digit (n div 256 mod 16),
      hex_digit (n div 16 mod 16), hex_digit (n mod 16)]"

definition escape_char :: "codepoint \<Rightarrow> str" where
  "escape_char c =
     (if c = 34 then [92, 34]
      else if c = 92 then [92, 92]
      else if c = 10 then [92, 110]
      else if c = 13 then [92, 114]
      else if c = 9 then [92, 116]
      else if c = 12 then [92, 102]
      else if c = 8 then [92, 98]
      else if 32 \<le> c \<and> c \<le> 126 then [c]
      else if c < 0x10000 then u_escape c
      else
        let n = c - 0x10000 in
        u_escape (0xD800 + n div 1024 mod 1024) @ u_escape (0xDC00 + n mod 1024))"

definition json_string :: "str \<Rightarrow> str" where
  "json_string s = [34] @ concat (map escape_char s) @ [34]"

fun join :: "str \<Rightarrow> str list \<Rightarrow> str" where
  "join sep [] = []"
| "join sep [x] = x"
| "join sep (x # y # ys) = x @ sep @ join sep (y # ys)"

definition json_dumps :: "str list \<Rightarrow> str" where
  "json_dumps xs =
     (if xs = [] then ascii ''[]''
      else ascii ''['' @ [10] @ ascii ''  '' @
           join ([44, 10] @ ascii ''  '') (map json_string xs) @ [10] @ ascii '']'')"

text \<open>
  What the two dataset scripts do, in order. \<open>index_main\<close> takes the result of
  \<^verbatim>\<open>api.list_repo_files\<close>: the exception it raised (\<open>Inl\<close>), which is not caught, or
  the list of paths. Creating the directory and writing the file are taken to succeed.
\<close>

datatype event =
    Print str
  | Mkdir path
  | Write_text path str
  | Rglob str
  | Upload_large_folder str str

datatype ending = Returned | SystemExit str | Uncaught str

definition DATASET :: str where
  "DATASET = ascii ''bubcass/oireachtas-debates''"

definition OUTPUT :: path where
  "OUTPUT = [ascii ''data'', ascii ''available-dates.json'']"

definition index_main :: "(codepoint \<Rightarrow> bool) \<Rightarrow> str + str list \<Rightarrow> event list \<times> ending" where
  "index_main nd listing =
     (let start = [Print (ascii ''Listing files in dataset '' @ DATASET @ ascii ''...'')] in
      case listing of
        Inl e \<Rightarrow> (start, Uncaught e)
      | Inr files \<Rightarrow>
          let dates = sorted_dates nd files in
          (start @
           [Mkdir (butlast OUTPUT),
            Write_text OUTPUT (json_dumps dates),
            Print (ascii ''Found '' @ decimal (length dates) @ ascii '' available debate dates.''),
            Print (ascii ''Wrote: data/available-dates.json'')], Returned))"

text \<open>
  For closed examples: a table that knows the Arabic-Indic digits (U+0660 to U+0669) as
  the decimal digits beyond ASCII.
\<close>

definition arabic_indic_digit :: "codepoint \<Rightarrow> bool" where
  "arabic_indic_digit c = (0x660 \<le> c \<and> c \<le> 0x669)"

section \<open>The upload script (\<^verbatim>\<open>up_to_HF.py\<close>)\<close>

text \<open>
  Its environment: whether \<^verbatim>\<open>DAIL_DIR\<close> exists, the XML files below it (relative to it, as
  \<^verbatim>\<open>rglob\<close> finds them) and whether \<^verbatim>\<open>upload_large_folder\<close> raises.
\<close>

record upload_world =
  dail_dir_exists :: bool
  xml_files :: "str list"
  upload_raises :: "str option"

definition REPO_ID :: str where
  "REPO_ID = ascii ''bubcass/oireachtas-debates''"

definition DAIL_DIR :: str where
  "DAIL_DIR = ascii ''/Users/david/Developer/2026-01-20_debates_edition/data/xml/dail''"

definition upload_main :: "upload_world \<Rightarrow> event list \<times> ending" where
  "upload_main w =
     (if \<not> dail_dir_exists w then ([], SystemExit (ascii ''DAIL_DIR not found: '' @ DAIL_DIR))
      else
        let files = xml_files w;
            before =
              [Rglob DAIL_DIR,
               Print (ascii ''Uploading dail from: '' @ DAIL_DIR),
               Print (ascii ''XML files found (recursive): '' @ decimal (length files))] @
              (case files of [] \<Rightarrow> [] | f # _ \<Rightarrow> [Print (ascii ''Example file: '' @ f)]) @
              [Upload_large_folder REPO_ID DAIL_DIR]
        in case upload_raises w of
             Some e \<Rightarrow> (before, Uncaught e)
           | None \<Rightarrow> (before @ [Print (ascii ''Done.'')], Returned))"

section \<open>The content sniff rejects short bodies and HTML\<close>

lemma prefix_take_iff: "length p \<le> n \<Longrightarrow> prefix p (take n xs) = prefix p xs"
proof -
  have eq: "\<And>ys. prefix p ys \<longleftrightarrow> take (length p) ys = p"
    by (metis append_eq_conv_conj append_take_drop_id prefix_def)
  assume "length p \<le> n"
  then show ?thesis by (simp add: eq min_def)
qed

lemma lower_byte_less_than_sign: "lower_byte c = CHR ''<'' \<Longrightarrow> c = CHR ''<''"
  by (auto simp: lower_byte_def split: if_splits)

lemma lower_take: "lower (take n b) = take n (lower b)"
  by (simp add: lower_def take_map)

text \<open>
  C2. A body of fewer than 100 bytes, the empty body included, is rejected by
  \<^verbatim>\<open>looks_like_xml\<close>.
\<close>

theorem looks_like_xml_short: "length body < 100 \<Longrightarrow> \<not> looks_like_xml body"
  by (simp add: looks_like_xml_def)

theorem looks_like_xml_short_witness:
  "length ''<?xml version=\"1.0\"?><akomaNtoso/>'' < 100 \<and>
   \<not> looks_like_xml ''<?xml version=\"1.0\"?><akomaNtoso/>'' \<and>
   \<not> looks_like_xml []"
proof -
  have h: "length ''<?xml version=\"1.0\"?><akomaNtoso/>'' < 100" by simp
  have e: "length ([] :: bytes) < 100" by simp
  from looks_like_xml_short [OF h] looks_like_xml_short [OF e] h show ?thesis by blast
qed

text \<open>
  C3. A body that begins with \<^verbatim>\<open><!doctype html\<close> or with \<^verbatim>\<open><html\<close>, letters compared
  without regard to case, is rejected by \<^verbatim>\<open>looks_like_xml\<close> whatever its length.
\<close>

theorem looks_like_xml_html:
  assumes "startswith (lower body) ''<!doctype html'' \<or> startswith (lower body) ''<html''"
  shows "\<not> looks_like_xml body"
proof -
  from assms obtain c cs where c: "body = c # cs" "lower_byte c = CHR ''<''"
    by (cases body) (auto simp: lower_def startswith_def)
  then have "c = CHR ''<''" using lower_byte_less_than_sign by simp
  then have "lstrip body = body"
    using c by (simp add: lstrip_def ascii_whitespace_def)
  moreover have "startswith (lower (take 500 body)) ''<!doctype html'' \<or>
      startswith (lower (take 500 body)) ''<html''"
    using assms by (simp add: lower_take startswith_def prefix_take_iff del: prefix_code)
  ultimately show ?thesis by (simp add: looks_like_xml_def Let_def)
qed

theorem looks_like_xml_html_witness:
  "startswith (lower (''<!DOCTYPE Html><HTML>'' @ replicate 600 CHR ''x'')) ''<!doctype html'' \<and>
   \<not> looks_like_xml (''<!DOCTYPE Html><HTML>'' @ replicate 600 CHR ''x'')"
proof -
  have h: "startswith (lower (''<!DOCTYPE Html><HTML>'' @ replicate 600 CHR ''x'')) ''<!doctype html''"
    by (simp add: startswith_def lower_def lower_byte_def)
  then have "startswith (lower (''<!DOCTYPE Html><HTML>'' @ replicate 600 CHR ''x'')) ''<!doctype html'' \<or>
      startswith (lower (''<!DOCTYPE Html><HTML>'' @ replicate 600 CHR ''x'')) ''<html''"
    by (rule disjI1)
  from looks_like_xml_html [OF this] h show ?thesis by blast
qed

section \<open>The fetch loop\<close>

subsection \<open>The calendar\<close>

lemma days_in_month_le: "days_in_month y m \<le> 31"
  by (auto simp: days_in_month_def nth_Cons' )

lemma days_in_month_pos: "1 \<le> m \<Longrightarrow> m \<le> 12 \<Longrightarrow> 28 \<le> days_in_month y m"
proof -
  assume "1 \<le> m" "m \<le> 12"
  then have "m = 1 \<or> m = 2 \<or> m = 3 \<or> m = 4 \<or> m = 5 \<or> m = 6 \<or> m = 7 \<or> m = 8 \<or> m = 9
      \<or> m = 10 \<or> m = 11 \<or> m = 12" by arith
  then show ?thesis by (auto simp: days_in_month_def)
qed

lemma add_one_day_valid:
  "valid_date d \<Longrightarrow> add_one_day d = Some d' \<Longrightarrow> valid_date d'"
  using days_in_month_pos[of 1 "year d + 1"] days_in_month_pos[of "month d + 1" "year d"]
  by (auto simp: add_one_day_def valid_date_def split: if_splits)

lemma add_one_day_lt:
  "add_one_day d = Some d' \<Longrightarrow> date_lt d d'"
  by (auto simp: add_one_day_def date_lt_def split: if_splits)

lemma add_one_day_least:
  "add_one_day d = Some d' \<Longrightarrow> valid_date x \<Longrightarrow> date_lt d x \<Longrightarrow> date_le d' x"
  by (auto simp: add_one_day_def date_lt_def date_le_def valid_date_def split: if_splits)

lemma add_one_day_last:
  assumes "add_one_day d = None" "valid_date x" "date_lt d x"
  shows False
proof -
  from assms(1) have d: "days_in_month (year d) (month d) \<le> day d" "12 \<le> month d" "9999 \<le> year d"
    by (auto simp: add_one_day_def split: if_splits)
  from assms(2) have x: "year x \<le> 9999" "month x \<le> 12" "day x \<le> days_in_month (year x) (month x)"
    by (auto simp: valid_date_def)
  from assms(3) d x have "year x = year d" "month x = month d" "day d < day x"
    by (auto simp: date_lt_def)
  with d x show False by simp
qed

lemma date_le_iff: "date_le a b \<longleftrightarrow> a = b \<or> date_lt a b"
  for a b :: date
  by (cases a, cases b) (auto simp: date_le_def date_lt_def)

lemma date_lt_le_trans: "date_lt a b \<Longrightarrow> date_le b c \<Longrightarrow> date_lt a c"
  by (auto simp: date_le_def date_lt_def)

lemma date_le_trans: "date_le a b \<Longrightarrow> date_le b c \<Longrightarrow> date_le a c"
  by (auto simp: date_le_def)

lemma dates_from_Nil: "\<not> date_le d e \<Longrightarrow> dates_from d e = []"
  by (subst dates_from.simps) simp

lemma dates_from_last: "date_le d e \<Longrightarrow> add_one_day d = None \<Longrightarrow> dates_from d e = [d]"
  by (subst dates_from.simps) simp

lemma dates_from_Cons:
  "date_le d e \<Longrightarrow> add_one_day d = Some d' \<Longrightarrow> dates_from d e = d # dates_from d' e"
  by (subst dates_from.simps) simp

lemma date_le_refl: "date_le a a"
  by (simp add: date_le_def)

lemma date_le_cases: "date_le a b \<Longrightarrow> a = b \<or> date_lt a b"
  for a b :: date
  by (simp add: date_le_iff)

lemma date_lt_imp_le: "date_lt a b \<Longrightarrow> date_le a b"
  by (simp add: date_le_iff)

lemma set_dates_from:
  "valid_date d \<Longrightarrow>
   set (dates_from d e) = {x. valid_date x \<and> date_le d x \<and> date_le x e}"
proof (induction d e rule: dates_from.induct)
  case (1 d e)
  show ?case
  proof (cases "date_le d e")
    case False
    then have "dates_from d e = []" by (rule dates_from_Nil)
    moreover have "\<And>x. \<not> (date_le d x \<and> date_le x e)"
      using False date_le_trans by blast
    ultimately show ?thesis by simp
  next
    case True
    show ?thesis
    proof (cases "add_one_day d")
      case None
      have "dates_from d e = [d]" using True None by (rule dates_from_last)
      moreover have "\<And>x. (valid_date x \<and> date_le d x \<and> date_le x e) = (x = d)"
      proof
        fix x assume x: "valid_date x \<and> date_le d x \<and> date_le x e"
        then have "d = x \<or> date_lt d x" using date_le_cases by blast
        then show "x = d" using add_one_day_last[OF None] x by blast
      next
        fix x assume "x = d"
        then show "valid_date x \<and> date_le d x \<and> date_le x e"
          using True 1(2) date_le_refl by simp
      qed
      ultimately show ?thesis by simp
    next
      case (Some d')
      have eq: "dates_from d e = d # dates_from d' e"
        using True Some by (rule dates_from_Cons)
      have v: "valid_date d'" using add_one_day_valid[OF 1(2) Some] .
      have ih: "set (dates_from d' e) = {x. valid_date x \<and> date_le d' x \<and> date_le x e}"
        using 1(1)[OF True Some v] .
      have "\<And>x. (valid_date x \<and> date_le d x \<and> date_le x e)
              = (x = d \<or> (valid_date x \<and> date_le d' x \<and> date_le x e))"
      proof
        fix x assume x: "valid_date x \<and> date_le d x \<and> date_le x e"
        then have "d = x \<or> date_lt d x" using date_le_cases by blast
        then show "x = d \<or> (valid_date x \<and> date_le d' x \<and> date_le x e)"
          using add_one_day_least[OF Some] x by blast
      next
        fix x assume x: "x = d \<or> (valid_date x \<and> date_le d' x \<and> date_le x e)"
        have "date_le d' x \<Longrightarrow> date_le d x"
          using date_lt_imp_le[OF date_lt_le_trans[OF add_one_day_lt[OF Some]]] .
        then show "valid_date x \<and> date_le d x \<and> date_le x e"
          using x True 1(2) date_le_refl by blast
      qed
      then have "{x. valid_date x \<and> date_le d x \<and> date_le x e}
            = insert d {x. valid_date x \<and> date_le d' x \<and> date_le x e}"
        by (simp add: insert_compr)
      then show ?thesis using eq ih by simp
    qed
  qed
qed


subsection \<open>The ISO form of a date\<close>

lemma decimal_small: "n < 10 \<Longrightarrow> decimal n = [48 + n]"
  by (subst decimal.simps) simp

lemma decimal_large: "10 \<le> n \<Longrightarrow> decimal n = decimal (n div 10) @ [48 + n mod 10]"
  by (subst decimal.simps) simp

lemma replicate_small:
  "replicate 1 x = [x]" "replicate 2 x = [x, x]" "replicate 3 x = [x, x, x]"
  by (simp_all add: numeral_eq_Suc)

lemma zero_pad_2: "n < 100 \<Longrightarrow> zero_pad 2 n = [48 + n div 10, 48 + n mod 10]"
proof (cases "n < 10")
  case True
  then show ?thesis by (simp add: zero_pad_def decimal_small)
next
  case False
  assume "n < 100"
  then have "n div 10 < 10" by simp
  then show ?thesis using False by (simp add: zero_pad_def decimal_large decimal_small)
qed

lemma zero_pad_4:
  assumes "n < 10000"
  shows "zero_pad 4 n = [48 + n div 1000, 48 + n div 100 mod 10, 48 + n div 10 mod 10, 48 + n mod 10]"
proof -
  consider "n < 10" | "10 \<le> n" "n < 100" | "100 \<le> n" "n < 1000" | "1000 \<le> n" by linarith
  then show ?thesis
  proof cases
    case 1
    then show ?thesis by (simp add: zero_pad_def decimal_small replicate_small)
  next
    case 2
    then have "n div 10 < 10" by simp
    then show ?thesis using 2
      by (simp add: zero_pad_def decimal_large decimal_small replicate_small)
  next
    case 3
    then have a: "10 \<le> n div 10" "n div 10 div 10 < 10" "10 \<le> n" by simp_all
    have b: "n div 10 div 10 = n div 100" by (simp add: div_mult2_eq)
    have c: "n div 1000 = 0" using 3 by simp
    show ?thesis using a b c
      by (simp add: zero_pad_def decimal_large[of n] decimal_large[of "n div 10"] decimal_small)
  next
    case 4
    then have a: "10 \<le> n" "10 \<le> n div 10" "10 \<le> n div 10 div 10" "n div 10 div 10 div 10 < 10"
      using assms by simp_all
    have b: "n div 10 div 10 = n div 100" "n div 10 div 10 div 10 = n div 1000"
      by (simp_all add: div_mult2_eq)
    have c: "n div 1000 mod 10 = n div 1000" using assms by simp
    show ?thesis using a b c
      by (simp add: zero_pad_def decimal_large[of n] decimal_large[of "n div 10"]
          decimal_large[of "n div 100"] decimal_small)
  qed
qed

lemma isoformat_valid:
  assumes "valid_date d"
  shows "isoformat d =
    [48 + year d div 1000, 48 + year d div 100 mod 10, 48 + year d div 10 mod 10, 48 + year d mod 10,
     45, 48 + month d div 10, 48 + month d mod 10, 45, 48 + day d div 10, 48 + day d mod 10]"
proof -
  have "year d < 10000" "month d < 100" "day d < 100"
    using assms days_in_month_le[of "year d" "month d"] by (auto simp: valid_date_def)
  then show ?thesis by (simp add: isoformat_def zero_pad_4 zero_pad_2 ascii_def)
qed


lemma regex_digit_ascii: "n \<le> 9 \<Longrightarrow> regex_digit nd (48 + n)"
  by (simp add: regex_digit_def)

lemma isoformat_date_group:
  assumes "valid_date d"
  shows "date_group nd (isoformat d)"
proof -
  have "year d < 10000" using assms by (simp add: valid_date_def)
  then have "year d div 1000 \<le> 9" by simp
  moreover have "\<And>n::nat. n mod 10 \<le> 9" by simp
  moreover have "month d div 10 \<le> 9" "day d div 10 \<le> 9"
    using assms days_in_month_le[of "year d" "month d"] by (auto simp: valid_date_def)
  ultimately show ?thesis
    by (simp add: isoformat_valid[OF assms] date_group_def regex_digit_ascii ascii_def)
qed


subsection \<open>One pass of the loop\<close>

lemma print_line_raises: "snd (print_line w t s) = print_raises w t"
  by (simp add: print_line_def split: option.splits)

lemma print_line_keeps:
  "requests (fst (print_line w t s)) = requests s"
  "written (fst (print_line w t s)) = written s"
  "saved (fst (print_line w t s)) = saved s"
  "missing (fst (print_line w t s)) = missing s"
  by (simp_all add: print_line_def split: option.splits)

lemma print_line_stdout:
  "stdout (fst (print_line w t s)) = stdout s @ (if print_raises w t = None then [t] else [])"
  by (simp add: print_line_def split: option.splits)

lemma try_body_requests: "requests (fst (try_body w url out s)) = requests s @ [url]"
  by (simp add: try_body_def Let_def print_line_keeps
      split: sum.splits write_result.splits)

lemma try_body_stdout_mono: "set (stdout s) \<subseteq> set (stdout (fst (try_body w url out s)))"
  by (auto simp: try_body_def Let_def print_line_stdout split: sum.splits write_result.splits)

lemma raised_any_state:
  "snd (try_body w (url_for (isoformat d)) (OUT_DIR w @ [file_name_for (isoformat d)]) s) =
   raised w d"
  by (simp add: raised_def try_body_def Let_def print_line_raises
      split: sum.splits write_result.splits)

lemma try_body_pair:
  "try_body w (url_for (isoformat d)) (OUT_DIR w @ [file_name_for (isoformat d)]) s =
   (fst (try_body w (url_for (isoformat d)) (OUT_DIR w @ [file_name_for (isoformat d)]) s),
    raised w d)"
  by (rule prod_eqI) (simp_all add: raised_any_state)

lemma iteration_unfold:
  "iteration w d s =
   (let s' = fst (try_body w (url_for (isoformat d)) (OUT_DIR w @ [file_name_for (isoformat d)]) s)
    in case raised w d of
         None \<Rightarrow> (s', None)
       | Some (Exc e) \<Rightarrow> print_line w (warning_line (isoformat d) e) s'
       | Some (Base e) \<Rightarrow> (s', Some (Base e)))"
  unfolding iteration_def Let_def
  by (subst try_body_pair) simp

lemma escape_any_state: "snd (iteration w d s) = escape w d"
  by (simp add: escape_def iteration_unfold Let_def print_line_raises
      split: option.splits exc.splits)

lemma escape_eq:
  "escape w d =
   (case raised w d of
      None \<Rightarrow> None
    | Some (Exc e) \<Rightarrow> print_raises w (warning_line (isoformat d) e)
    | Some (Base e) \<Rightarrow> Some (Base e))"
  by (simp add: escape_def iteration_unfold Let_def print_line_raises
      split: option.splits exc.splits)

lemma iteration_pair: "iteration w d s = (fst (iteration w d s), escape w d)"
  by (rule prod_eqI) (simp_all add: escape_any_state)

lemma raised_get: "http_get w (url_for (isoformat d)) = Inl x \<Longrightarrow> raised w d = Some x"
  by (simp add: raised_def try_body_def Let_def)

lemma raised_write:
  "http_get w (url_for (isoformat d)) = Inr r \<Longrightarrow> status_code r = 200 \<Longrightarrow>
   looks_like_xml (content r) \<Longrightarrow>
   write_bytes w (OUT_DIR w @ [file_name_for (isoformat d)]) (content r) = Write_raises x left \<Longrightarrow>
   raised w d = Some x"
  by (simp add: raised_def try_body_def Let_def)




lemma iteration_requests:
  "requests (fst (iteration w d s)) = requests s @ [url_for (isoformat d)]"
  by (simp add: iteration_unfold Let_def print_line_keeps try_body_requests
      split: option.splits exc.splits)






lemma iteration_stdout_mono: "set (stdout s) \<subseteq> set (stdout (fst (iteration w d s)))"
  using try_body_stdout_mono[of s w "url_for (isoformat d)" "OUT_DIR w @ [file_name_for (isoformat d)]"]
  by (auto simp: iteration_unfold Let_def print_line_stdout split: option.splits exc.splits)

lemma iteration_stdout_warning:
  "raised w d = Some (Exc msg) \<Longrightarrow> print_raises w (warning_line (isoformat d) msg) = None \<Longrightarrow>
   warning_line (isoformat d) msg \<in> set (stdout (fst (iteration w d s)))"
  by (simp add: iteration_unfold Let_def print_line_stdout)

subsection \<open>The loop as a fold over the dates it visits\<close>

lemma fetch_loop_stop: "\<not> date_le d e \<Longrightarrow> fetch_loop w e d s = (s, None)"
  by (subst fetch_loop.simps) simp

lemma fetch_loop_escape:
  "date_le d e \<Longrightarrow> escape w d = Some x \<Longrightarrow>
   fetch_loop w e d s = (fst (iteration w d s), Some x)"
  by (subst fetch_loop.simps, subst iteration_pair) simp

lemma fetch_loop_overflow:
  "date_le d e \<Longrightarrow> escape w d = None \<Longrightarrow> add_one_day d = None \<Longrightarrow>
   fetch_loop w e d s = (fst (iteration w d s), Some (Exc (ascii ''date value out of range'')))"
  by (subst fetch_loop.simps, subst iteration_pair) simp

lemma fetch_loop_sleep:
  "date_le d e \<Longrightarrow> escape w d = None \<Longrightarrow> add_one_day d = Some d' \<Longrightarrow>
   sleep_raises w d = Some x \<Longrightarrow> fetch_loop w e d s = (fst (iteration w d s), Some x)"
  by (subst fetch_loop.simps, subst iteration_pair) simp

lemma fetch_loop_step:
  "date_le d e \<Longrightarrow> escape w d = None \<Longrightarrow> add_one_day d = Some d' \<Longrightarrow>
   sleep_raises w d = None \<Longrightarrow> fetch_loop w e d s = fetch_loop w e d' (fst (iteration w d s))"
  by (subst fetch_loop.simps, subst iteration_pair) simp

lemma visited_Nil: "\<not> date_le d e \<Longrightarrow> visited w e d = []"
  by (subst visited.simps) simp

lemma visited_escape: "date_le d e \<Longrightarrow> escape w d = Some x \<Longrightarrow> visited w e d = [d]"
  by (subst visited.simps) simp

lemma visited_overflow:
  "date_le d e \<Longrightarrow> escape w d = None \<Longrightarrow> add_one_day d = None \<Longrightarrow> visited w e d = [d]"
  by (subst visited.simps) simp

lemma visited_sleep:
  "date_le d e \<Longrightarrow> escape w d = None \<Longrightarrow> add_one_day d = Some d' \<Longrightarrow>
   sleep_raises w d = Some x \<Longrightarrow> visited w e d = [d]"
  by (subst visited.simps) simp

lemma visited_Cons:
  "date_le d e \<Longrightarrow> escape w d = None \<Longrightarrow> add_one_day d = Some d' \<Longrightarrow>
   sleep_raises w d = None \<Longrightarrow> visited w e d = d # visited w e d'"
  by (subst visited.simps) simp

lemma fetch_loop_fold:
  "fst (fetch_loop w e d s) = foldl (\<lambda>s d. fst (iteration w d s)) s (visited w e d)"
proof (induction w e d arbitrary: s rule: visited.induct)
  case (1 w e d)
  show ?case
  proof (cases "date_le d e")
    case False
    then show ?thesis by (simp add: fetch_loop_stop visited_Nil)
  next
    case le: True
    show ?thesis
    proof (cases "escape w d")
      case (Some x)
      then show ?thesis using le by (simp add: fetch_loop_escape visited_escape)
    next
      case esc: None
      show ?thesis
      proof (cases "add_one_day d")
        case None
        then show ?thesis using le esc by (simp add: fetch_loop_overflow visited_overflow)
      next
        case next_day: (Some d')
        show ?thesis
        proof (cases "sleep_raises w d")
          case (Some x)
          then show ?thesis
            using le esc next_day by (simp add: fetch_loop_sleep visited_sleep)
        next
          case None
          then show ?thesis
            using le esc next_day 1[OF le esc next_day None]
            by (simp add: fetch_loop_step visited_Cons)
        qed
      qed
    qed
  qed
qed


lemma visited_undisturbed:
  "undisturbed w (dates_from d e) \<Longrightarrow> visited w e d = dates_from d e"
proof (induction d e rule: dates_from.induct)
  case (1 d e)
  show ?case
  proof (cases "date_le d e")
    case False
    then show ?thesis by (simp add: visited_Nil dates_from_Nil)
  next
    case le: True
    show ?thesis
    proof (cases "add_one_day d")
      case None
      then have "dates_from d e = [d]" using le by (simp add: dates_from_last)
      then show ?thesis
        using 1(2) le None by (simp add: undisturbed_def visited_overflow)
    next
      case (Some d')
      then have eq: "dates_from d e = d # dates_from d' e" using le by (simp add: dates_from_Cons)
      then have u: "escape w d = None" "sleep_raises w d = None" "undisturbed w (dates_from d' e)"
        using 1(2) by (simp_all add: undisturbed_def)
      show ?thesis using le Some u eq 1(1)[OF le Some u(3)] by (simp add: visited_Cons)
    qed
  qed
qed

lemma add_one_day_None_iff:
  "valid_date d \<Longrightarrow> add_one_day d = None \<longleftrightarrow> d = \<lparr>year = 9999, month = 12, day = 31\<rparr>"
  by (cases d) (auto simp: add_one_day_def valid_date_def days_in_month_def is_leap_def split: if_splits)

lemma valid_date_le_max: "valid_date d \<Longrightarrow> date_le d \<lparr>year = 9999, month = 12, day = 31\<rparr>"
  using days_in_month_le[of "year d" "month d"] by (auto simp: valid_date_def date_le_def)

lemma fetch_loop_outcome:
  "valid_date d \<Longrightarrow> undisturbed w (dates_from d e) \<Longrightarrow>
   snd (fetch_loop w e d s) =
     (if date_le d e \<and> date_le \<lparr>year = 9999, month = 12, day = 31\<rparr> e
      then Some (Exc (ascii ''date value out of range'')) else None)"
proof (induction d e arbitrary: s rule: dates_from.induct)
  case (1 d e)
  show ?case
  proof (cases "date_le d e")
    case False
    then show ?thesis by (simp add: fetch_loop_stop)
  next
    case le: True
    show ?thesis
    proof (cases "add_one_day d")
      case None
      then have d: "d = \<lparr>year = 9999, month = 12, day = 31\<rparr>"
        using add_one_day_None_iff[OF 1(2)] by simp
      have "dates_from d e = [d]" using le None by (simp add: dates_from_last)
      then have "escape w d = None" using 1(3) by (simp add: undisturbed_def)
      then show ?thesis using le None d by (simp add: fetch_loop_overflow)
    next
      case (Some d')
      have v: "valid_date d'" using add_one_day_valid[OF 1(2) Some] .
      have eq: "dates_from d e = d # dates_from d' e" using le Some by (simp add: dates_from_Cons)
      then have u: "escape w d = None" "sleep_raises w d = None" "undisturbed w (dates_from d' e)"
        using 1(3) by (simp_all add: undisturbed_def)
      have "date_le \<lparr>year = 9999, month = 12, day = 31\<rparr> e \<Longrightarrow> date_le d' e"
        using valid_date_le_max[OF v] date_le_trans by blast
      then show ?thesis
        using le 1(1)[OF le Some v u(3)] by (auto simp: fetch_loop_step[OF le u(1) Some u(2)])
    qed
  qed
qed

subsection \<open>The effects of the passes\<close>

lemma fold_requests:
  "requests (foldl (\<lambda>s d. fst (iteration w d s)) s ds) =
   requests s @ map (\<lambda>d. url_for (isoformat d)) ds"
  by (induction ds arbitrary: s) (simp_all add: iteration_requests)



lemma fold_stdout_mono:
  "set (stdout s) \<subseteq> set (stdout (foldl (\<lambda>s d. fst (iteration w d s)) s ds))"
proof (induction ds arbitrary: s)
  case Nil
  show ?case by simp
next
  case (Cons d ds)
  show ?case using iteration_stdout_mono[of s w d] Cons[of "fst (iteration w d s)"] by auto
qed

lemma fold_stdout_warning:
  "d \<in> set ds \<Longrightarrow> raised w d = Some (Exc msg) \<Longrightarrow>
   print_raises w (warning_line (isoformat d) msg) = None \<Longrightarrow>
   warning_line (isoformat d) msg \<in> set (stdout (foldl (\<lambda>s d. fst (iteration w d s)) s ds))"
proof (induction ds arbitrary: s)
  case Nil
  then show ?case by simp
next
  case (Cons x ds)
  show ?case
  proof (cases "d = x")
    case True
    then show ?thesis
      using iteration_stdout_warning[OF Cons.prems(2,3), of s]
        fold_stdout_mono[of "fst (iteration w d s)" w ds] by auto
  next
    case False
    then show ?thesis using Cons by simp
  qed
qed








subsection \<open>The example runs\<close>

lemma xml_body_accepted: "looks_like_xml xml_body"
  by (simp add: looks_like_xml_def xml_body_def lstrip_def lower_def lower_byte_def
      startswith_def ascii_whitespace_def)

lemma demo_isoformat:
  "isoformat \<lparr>year = 2026, month = 2, day = 10\<rparr> = ascii ''2026-02-10''"
  "isoformat \<lparr>year = 2026, month = 2, day = 11\<rparr> = ascii ''2026-02-11''"
  "isoformat \<lparr>year = 2026, month = 2, day = 12\<rparr> = ascii ''2026-02-12''"
  "isoformat \<lparr>year = 2026, month = 2, day = 13\<rparr> = ascii ''2026-02-13''"
  by (simp_all add: isoformat_def zero_pad_def decimal.simps ascii_def)

lemma demo_dates:
  "dates_from \<lparr>year = 2026, month = 2, day = 10\<rparr> \<lparr>year = 2026, month = 2, day = 13\<rparr> =
   [\<lparr>year = 2026, month = 2, day = 10\<rparr>, \<lparr>year = 2026, month = 2, day = 11\<rparr>,
    \<lparr>year = 2026, month = 2, day = 12\<rparr>, \<lparr>year = 2026, month = 2, day = 13\<rparr>]"
  by (simp add: dates_from.simps date_le_def add_one_day_def days_in_month_def is_leap_def)

lemma leap_year_dates:
  "dates_from \<lparr>year = 2024, month = 2, day = 28\<rparr> \<lparr>year = 2024, month = 3, day = 2\<rparr> =
   [\<lparr>year = 2024, month = 2, day = 28\<rparr>, \<lparr>year = 2024, month = 2, day = 29\<rparr>,
    \<lparr>year = 2024, month = 3, day = 1\<rparr>, \<lparr>year = 2024, month = 3, day = 2\<rparr>]"
  by (simp add: dates_from.simps date_le_def add_one_day_def days_in_month_def is_leap_def)

lemma demo_urls_differ:
  "url_for (ascii ''2026-02-11'') \<noteq> url_for (ascii ''2026-02-10'')"
  "url_for (ascii ''2026-02-11'') \<noteq> url_for (ascii ''2026-02-13'')"
  "url_for (ascii ''2026-02-12'') \<noteq> url_for (ascii ''2026-02-10'')"
  "url_for (ascii ''2026-02-12'') \<noteq> url_for (ascii ''2026-02-13'')"
  "url_for (ascii ''2026-02-12'') \<noteq> url_for (ascii ''2026-02-11'')"
  by (simp_all add: url_for_def ascii_def)

lemma demo_iteration_10:
  "iteration demo_world \<lparr>year = 2026, month = 2, day = 10\<rparr> s =
   (s\<lparr>requests := requests s @ [url_for (ascii ''2026-02-10'')],
      written := written s @
        [([ascii ''/'', ascii ''home'', ascii ''david'', ascii ''2026'',
           ascii ''2026-02-10_mul@.xml''], xml_body)],
      saved := saved s + 1,
      stdout := stdout s @ [[0x2705] @ ascii '' 2026-02-10_mul@.xml'']\<rparr>, None)"
  by (simp add: iteration_def try_body_def print_line_def demo_isoformat demo_world_def
      xml_body_accepted file_name_for_def path_name_def OUT_DIR_def saved_line_def Let_def)
     (simp add: ascii_def)

lemma demo_iteration_11:
  "iteration demo_world \<lparr>year = 2026, month = 2, day = 11\<rparr> s =
   (s\<lparr>requests := requests s @ [url_for (ascii ''2026-02-11'')],
      stdout := stdout s @ [[0x26A0, 0xFE0F] @ ascii ''  2026-02-11: Read timed out.'']\<rparr>,
    None)"
  by (simp add: iteration_def try_body_def print_line_def demo_isoformat demo_world_def
      demo_urls_differ warning_line_def Let_def)
     (simp add: ascii_def)

lemma demo_iteration_12:
  "iteration demo_world \<lparr>year = 2026, month = 2, day = 12\<rparr> s =
   (s\<lparr>requests := requests s @ [url_for (ascii ''2026-02-12'')], missing := missing s + 1\<rparr>,
    None)"
  by (simp add: iteration_def try_body_def demo_isoformat demo_world_def demo_urls_differ
      Let_def)

lemma demo_iteration_13:
  "iteration demo_world \<lparr>year = 2026, month = 2, day = 13\<rparr> s =
   (s\<lparr>requests := requests s @ [url_for (ascii ''2026-02-13'')],
      written := written s @
        [([ascii ''/'', ascii ''home'', ascii ''david'', ascii ''2026'',
           ascii ''2026-02-13_mul@.xml''], [])],
      stdout := stdout s @
        [[0x26A0, 0xFE0F] @ ascii ''  2026-02-13: No space left on device'']\<rparr>, None)"
  by (simp add: iteration_def try_body_def print_line_def demo_isoformat demo_world_def
      xml_body_accepted file_name_for_def path_name_def OUT_DIR_def warning_line_def Let_def)
     (simp add: ascii_def)

lemma demo_sleep: "sleep_raises demo_world d = None"
  by (simp add: demo_world_def)


lemma demo_undisturbed:
  "undisturbed demo_world
     (dates_from \<lparr>year = 2026, month = 2, day = 10\<rparr> \<lparr>year = 2026, month = 2, day = 13\<rparr>)"
  by (simp add: undisturbed_def demo_dates escape_def demo_iteration_10 demo_iteration_11
      demo_iteration_12 demo_iteration_13 demo_sleep)




lemma ascii_console_iteration_11:
  "iteration ascii_console_world \<lparr>year = 2026, month = 2, day = 11\<rparr> s =
   (s\<lparr>requests := requests s @ [url_for (ascii ''2026-02-11'')]\<rparr>,
    Some (Exc (ascii ''ordinal not in range(128)'')))"
  by (simp add: iteration_def try_body_def print_line_def demo_isoformat demo_world_def
      ascii_console_world_def demo_urls_differ warning_line_def Let_def)


lemma ascii_console_run_11:
  "fetch_loop ascii_console_world \<lparr>year = 2026, month = 2, day = 13\<rparr>
     \<lparr>year = 2026, month = 2, day = 11\<rparr> init_state =
   (\<lparr>requests = [url_for (ascii ''2026-02-11'')], written = [], stdout = [], saved = 0,
      missing = 0\<rparr>, Some (Exc (ascii ''ordinal not in range(128)'')))"
  by (simp add: fetch_loop.simps date_le_def ascii_console_iteration_11 init_state_def)

subsection \<open>The script around the loop\<close>

lemma fetch_main_mkdir_raises:
  "mkdir w (OUT_DIR w) = Some x \<Longrightarrow> fetch_main w = (init_state, Some x)"
  by (simp add: fetch_main_def)

lemma fetch_main_effects:
  assumes "mkdir w (OUT_DIR w) = None"
  shows "requests (fst (fetch_main w)) =
           requests (fst (fetch_loop w (today w) START_DATE init_state)) \<and>
         written (fst (fetch_main w)) =
           written (fst (fetch_loop w (today w) START_DATE init_state)) \<and>
         saved (fst (fetch_main w)) = saved (fst (fetch_loop w (today w) START_DATE init_state)) \<and>
         missing (fst (fetch_main w)) =
           missing (fst (fetch_loop w (today w) START_DATE init_state))"
  using assms
  by (auto simp: fetch_main_def END_DATE_def print_line_def split: prod.splits option.splits)

subsection \<open>The claims about the loop\<close>



text \<open>
  C7, as amended. Let the request or the file write for a date \<open>d\<close> of the range raise an
  instance of \<^verbatim>\<open>Exception\<close> with message \<open>msg\<close>. It is caught, and the handler prints the
  warning sign, two spaces, the ISO form of \<open>d\<close>, a colon, a space and \<open>msg\<close>. What escapes
  from the pass is exactly what that \<^verbatim>\<open>print\<close> raises; when it returns, the line is printed.
  When nothing ends the loop early, the line is in the output of the loop, every later
  date of the range is requested, and the loop ends normally, unless the end date is
  9999-12-31 or later, where advancing the date overflows after the last request.
\<close>

theorem exceptions_are_caught:
  assumes "valid_date start" and "valid_date d" and "date_le start d" and "date_le d end_date"
    and "http_get w (url_for (isoformat d)) = Inl (Exc msg) \<or>
         (\<exists>r left. http_get w (url_for (isoformat d)) = Inr r \<and> status_code r = 200 \<and>
              looks_like_xml (content r) \<and>
              write_bytes w (OUT_DIR w @ [isoformat d @ ascii ''_mul@.xml'']) (content r) =
                Write_raises (Exc msg) left)"
  shows "escape w d =
           print_raises w ([0x26A0, 0xFE0F] @ ascii ''  '' @ isoformat d @ ascii '': '' @ msg) \<and>
         (print_raises w ([0x26A0, 0xFE0F] @ ascii ''  '' @ isoformat d @ ascii '': '' @ msg) = None
          \<longrightarrow> [0x26A0, 0xFE0F] @ ascii ''  '' @ isoformat d @ ascii '': '' @ msg \<in>
                set (stdout (fst (iteration w d s)))) \<and>
         (undisturbed w (dates_from start end_date) \<longrightarrow>
            [0x26A0, 0xFE0F] @ ascii ''  '' @ isoformat d @ ascii '': '' @ msg \<in>
              set (stdout (fst (fetch_loop w end_date start init_state))) \<and>
            (\<forall>d'. valid_date d' \<and> date_le d d' \<and> date_le d' end_date \<longrightarrow>
               url_for (isoformat d') \<in>
                 set (requests (fst (fetch_loop w end_date start init_state)))) \<and>
            snd (fetch_loop w end_date start init_state) =
              (if date_le \<lparr>year = 9999, month = 12, day = 31\<rparr> end_date
               then Some (Exc (ascii ''date value out of range'')) else None))"
proof -
  let ?line = "[0x26A0, 0xFE0F] @ ascii ''  '' @ isoformat d @ ascii '': '' @ msg"
  have line: "?line = warning_line (isoformat d) msg" by (simp add: warning_line_def)
  have r: "raised w d = Some (Exc msg)"
    using assms(5) raised_get raised_write by (auto simp: file_name_for_def)
  have 1: "escape w d = print_raises w ?line" unfolding line by (simp add: escape_eq r)
  have 2: "?line \<in> set (stdout (fst (iteration w d s)))" if "print_raises w ?line = None"
    using iteration_stdout_warning[OF r] that unfolding line by simp
  have 3: "?line \<in> set (stdout (fst (fetch_loop w end_date start init_state))) \<and>
      (\<forall>d'. valid_date d' \<and> date_le d d' \<and> date_le d' end_date \<longrightarrow>
         url_for (isoformat d') \<in> set (requests (fst (fetch_loop w end_date start init_state)))) \<and>
      snd (fetch_loop w end_date start init_state) =
        (if date_le \<lparr>year = 9999, month = 12, day = 31\<rparr> end_date
         then Some (Exc (ascii ''date value out of range'')) else None)"
    if u: "undisturbed w (dates_from start end_date)"
  proof -
    have d: "d \<in> set (dates_from start end_date)"
      using assms(1-4) by (simp add: set_dates_from)
    then have "escape w d = None" using u by (simp add: undisturbed_def list_all_iff)
    then have p: "print_raises w (warning_line (isoformat d) msg) = None"
      using 1 unfolding line by simp
    have v: "visited w end_date start = dates_from start end_date"
      using visited_undisturbed[OF u] .
    have a: "?line \<in> set (stdout (fst (fetch_loop w end_date start init_state)))"
      unfolding line using fold_stdout_warning[OF d r p] by (simp add: fetch_loop_fold v)
    have b: "url_for (isoformat d') \<in> set (requests (fst (fetch_loop w end_date start init_state)))"
      if "valid_date d' \<and> date_le d d' \<and> date_le d' end_date" for d'
    proof -
      have "date_le start d'" using that assms(3) date_le_trans by blast
      then have "d' \<in> set (dates_from start end_date)"
        using that assms(1) by (simp add: set_dates_from)
      then show ?thesis by (simp add: fetch_loop_fold fold_requests v)
    qed
    have "date_le start end_date" using assms(3,4) date_le_trans by blast
    then have c: "snd (fetch_loop w end_date start init_state) =
           (if date_le \<lparr>year = 9999, month = 12, day = 31\<rparr> end_date
            then Some (Exc (ascii ''date value out of range'')) else None)"
      using fetch_loop_outcome[OF assms(1) u] by simp
    show ?thesis using a b c by blast
  qed
  show ?thesis using 1 2 3 by blast
qed

theorem exceptions_are_caught_witness:
  "valid_date \<lparr>year = 2026, month = 2, day = 10\<rparr> \<and>
   valid_date \<lparr>year = 2026, month = 2, day = 11\<rparr> \<and>
   date_le \<lparr>year = 2026, month = 2, day = 10\<rparr> \<lparr>year = 2026, month = 2, day = 11\<rparr> \<and>
   date_le \<lparr>year = 2026, month = 2, day = 11\<rparr> \<lparr>year = 2026, month = 2, day = 13\<rparr> \<and>
   http_get demo_world (url_for (isoformat \<lparr>year = 2026, month = 2, day = 11\<rparr>)) =
     Inl (Exc (ascii ''Read timed out.'')) \<and>
   print_raises demo_world ([0x26A0, 0xFE0F] @ ascii ''  2026-02-11: Read timed out.'') = None \<and>
   undisturbed demo_world
     (dates_from \<lparr>year = 2026, month = 2, day = 10\<rparr> \<lparr>year = 2026, month = 2, day = 13\<rparr>) \<and>
   [0x26A0, 0xFE0F] @ ascii ''  2026-02-11: Read timed out.'' \<in>
     set (stdout (fst (fetch_loop demo_world \<lparr>year = 2026, month = 2, day = 13\<rparr>
       \<lparr>year = 2026, month = 2, day = 10\<rparr> init_state))) \<and>
   url_for (ascii ''2026-02-13'') \<in>
     set (requests (fst (fetch_loop demo_world \<lparr>year = 2026, month = 2, day = 13\<rparr>
       \<lparr>year = 2026, month = 2, day = 10\<rparr> init_state))) \<and>
   snd (fetch_loop demo_world \<lparr>year = 2026, month = 2, day = 13\<rparr>
       \<lparr>year = 2026, month = 2, day = 10\<rparr> init_state) = None"
proof -
  have h1: "valid_date \<lparr>year = 2026, month = 2, day = 10\<rparr>"
    and h2: "valid_date \<lparr>year = 2026, month = 2, day = 11\<rparr>"
    and h6: "valid_date \<lparr>year = 2026, month = 2, day = 13\<rparr>"
    by (simp_all add: valid_date_def days_in_month_def)
  have h3: "date_le \<lparr>year = 2026, month = 2, day = 10\<rparr> \<lparr>year = 2026, month = 2, day = 11\<rparr>"
    and h4: "date_le \<lparr>year = 2026, month = 2, day = 11\<rparr> \<lparr>year = 2026, month = 2, day = 13\<rparr>"
    and h7: "date_le \<lparr>year = 2026, month = 2, day = 13\<rparr> \<lparr>year = 2026, month = 2, day = 13\<rparr>"
    by (simp_all add: date_le_def)
  have h5: "http_get demo_world (url_for (isoformat \<lparr>year = 2026, month = 2, day = 11\<rparr>)) =
     Inl (Exc (ascii ''Read timed out.''))"
    by (simp add: demo_isoformat demo_world_def demo_urls_differ)
  have p: "print_raises demo_world ([0x26A0, 0xFE0F] @ ascii ''  2026-02-11: Read timed out.'') = None"
    by (simp add: demo_world_def)
  have n: "\<not> date_le \<lparr>year = 9999, month = 12, day = 31\<rparr> \<lparr>year = 2026, month = 2, day = 13\<rparr>"
    by (simp add: date_le_def)
  have l: "[0x26A0, 0xFE0F] @ ascii ''  '' @ isoformat \<lparr>year = 2026, month = 2, day = 11\<rparr> @
      ascii '': '' @ ascii ''Read timed out.'' =
      [0x26A0, 0xFE0F] @ ascii ''  2026-02-11: Read timed out.''"
    by (simp add: demo_isoformat ascii_def)
  from exceptions_are_caught [OF h1 h2 h3 h4 disjI1, OF h5, of init_state] demo_undisturbed
  have "[0x26A0, 0xFE0F] @ ascii ''  '' @ isoformat \<lparr>year = 2026, month = 2, day = 11\<rparr> @
      ascii '': '' @ ascii ''Read timed out.'' \<in>
      set (stdout (fst (fetch_loop demo_world \<lparr>year = 2026, month = 2, day = 13\<rparr>
       \<lparr>year = 2026, month = 2, day = 10\<rparr> init_state)))"
    and "\<forall>d'. valid_date d' \<and> date_le \<lparr>year = 2026, month = 2, day = 11\<rparr> d' \<and>
           date_le d' \<lparr>year = 2026, month = 2, day = 13\<rparr> \<longrightarrow>
         url_for (isoformat d') \<in>
           set (requests (fst (fetch_loop demo_world \<lparr>year = 2026, month = 2, day = 13\<rparr>
             \<lparr>year = 2026, month = 2, day = 10\<rparr> init_state)))"
    and "snd (fetch_loop demo_world \<lparr>year = 2026, month = 2, day = 13\<rparr>
       \<lparr>year = 2026, month = 2, day = 10\<rparr> init_state) =
       (if date_le \<lparr>year = 9999, month = 12, day = 31\<rparr> \<lparr>year = 2026, month = 2, day = 13\<rparr>
        then Some (Exc (ascii ''date value out of range'')) else None)"
    by blast+
  then show ?thesis
    using h1 h2 h3 h4 h5 h6 h7 p n demo_undisturbed unfolding l
    by (auto simp: demo_isoformat[symmetric])
qed

text \<open>
  The claim as first stated lets the loop go on after any exception of the request. On a
  console that cannot encode the warning sign the handler's own \<^verbatim>\<open>print\<close> raises: the
  request of 11 February times out, no line is printed, and the loop ends there, with the
  12th and the 13th never requested.
\<close>

theorem exceptions_are_caught_counterexample:
  "http_get ascii_console_world (url_for (ascii ''2026-02-11'')) =
     Inl (Exc (ascii ''Read timed out.'')) \<and>
   fetch_loop ascii_console_world \<lparr>year = 2026, month = 2, day = 13\<rparr>
     \<lparr>year = 2026, month = 2, day = 11\<rparr> init_state =
   (\<lparr>requests = [url_for (ascii ''2026-02-11'')], written = [], stdout = [], saved = 0,
      missing = 0\<rparr>, Some (Exc (ascii ''ordinal not in range(128)'')))"
  by (simp add: ascii_console_run_11)
     (simp add: ascii_console_world_def demo_world_def demo_urls_differ)







section \<open>The index generator on the example of the specification\<close>

lemma search_example_1: "search nd (ascii ''2026-02-01_mul@.xml'') = Some (ascii ''2026-02-01'')"
  by (simp add: ascii_def match_at_def date_group_def regex_digit_def)

lemma search_example_2: "search nd (ascii ''2026-02-03_mul@.xml'') = Some (ascii ''2026-02-03'')"
  by (simp add: ascii_def match_at_def date_group_def regex_digit_def)

lemma search_example_3: "search nd (ascii ''notes.txt'') = None"
  by (simp add: ascii_def match_at_def date_group_def regex_digit_def)

lemma collect_dates_example:
  "collect_dates nd
     [ascii ''2026-02-01_mul@.xml'', ascii ''2026-02-03_mul@.xml'', ascii ''notes.txt''] =
   {ascii ''2026-02-01'', ascii ''2026-02-03''}"
  by (auto simp: collect_dates_def add_match_def search_example_1 search_example_2
      search_example_3)

text \<open>
  C4. On the paths \<^verbatim>\<open>2026-02-01_mul@.xml\<close>, \<^verbatim>\<open>2026-02-03_mul@.xml\<close> and \<^verbatim>\<open>notes.txt\<close> the
  sorted list of dates is \<^verbatim>\<open>2026-02-01\<close>, \<^verbatim>\<open>2026-02-03\<close>, and the text the script writes to
  \<^verbatim>\<open>data/available-dates.json\<close> is the JSON array of these two strings, as \<^verbatim>\<open>json.dumps\<close>
  lays it out with an indent of two.
\<close>

theorem index_example:
  "sorted_dates nd
     [ascii ''2026-02-01_mul@.xml'', ascii ''2026-02-03_mul@.xml'', ascii ''notes.txt''] =
   [ascii ''2026-02-01'', ascii ''2026-02-03''] \<and>
   json_dumps (sorted_dates nd
     [ascii ''2026-02-01_mul@.xml'', ascii ''2026-02-03_mul@.xml'', ascii ''notes.txt'']) =
   ascii ''['' @ [10] @ ascii ''  \"2026-02-01\",'' @ [10] @ ascii ''  \"2026-02-03\"'' @ [10] @
   ascii '']'' \<and>
   index_main nd
     (Inr [ascii ''2026-02-01_mul@.xml'', ascii ''2026-02-03_mul@.xml'', ascii ''notes.txt'']) =
   ([Print (ascii ''Listing files in dataset bubcass/oireachtas-debates...''),
     Mkdir [ascii ''data''],
     Write_text [ascii ''data'', ascii ''available-dates.json'']
       (ascii ''['' @ [10] @ ascii ''  \"2026-02-01\",'' @ [10] @ ascii ''  \"2026-02-03\"'' @ [10] @
        ascii '']''),
     Print (ascii ''Found 2 available debate dates.''),
     Print (ascii ''Wrote: data/available-dates.json'')], Returned)"
proof -
  have "sorted_dates nd
     [ascii ''2026-02-01_mul@.xml'', ascii ''2026-02-03_mul@.xml'', ascii ''notes.txt''] =
   [ascii ''2026-02-01'', ascii ''2026-02-03'']"
    unfolding sorted_dates_def collect_dates_example by (simp add: ascii_def)
  then show ?thesis
    by (simp add: index_main_def DATASET_def OUTPUT_def decimal.simps json_dumps_def
        json_string_def escape_char_def ascii_def)
qed

section \<open>What the index generator extracts\<close>

lemma date_group_length: "date_group nd g \<Longrightarrow> length g = 10"
  by (simp add: date_group_def)

lemma match_at_Some_iff:
  "match_at nd s = Some g \<longleftrightarrow>
   date_group nd g \<and> (s = g @ ascii ''_mul@.xml'' \<or> s = g @ ascii ''_mul@.xml'' @ [10])"
proof
  assume m: "match_at nd s = Some g"
  then have g: "g = take 10 s" "date_group nd g"
    and r: "drop 10 s = ascii ''_mul@.xml'' \<or> drop 10 s = ascii ''_mul@.xml'' @ [10]"
    by (auto simp: match_at_def Let_def split: if_splits)
  have "s = g @ drop 10 s" using g(1) by simp
  with r g(2) show "date_group nd g \<and> (s = g @ ascii ''_mul@.xml'' \<or> s = g @ ascii ''_mul@.xml'' @ [10])"
    by metis
next
  assume "date_group nd g \<and> (s = g @ ascii ''_mul@.xml'' \<or> s = g @ ascii ''_mul@.xml'' @ [10])"
  then show "match_at nd s = Some g"
    using date_group_length[of nd g] by (auto simp: match_at_def Let_def)
qed

lemma search_Some_D:
  "search nd f = Some g \<Longrightarrow> \<exists>pre s. f = pre @ s \<and> match_at nd s = Some g"
proof (induction f)
  case Nil
  then show ?case by auto
next
  case (Cons c cs)
  show ?case
  proof (cases "match_at nd (c # cs)")
    case None
    with Cons obtain pre s where "cs = pre @ s" "match_at nd s = Some g" by auto
    then have "c # cs = (c # pre) @ s \<and> match_at nd s = Some g" by simp
    then show ?thesis by blast
  next
    case (Some g')
    with Cons.prems have "c # cs = [] @ (c # cs) \<and> match_at nd (c # cs) = Some g" by simp
    then show ?thesis by blast
  qed
qed

lemma suffix_lengths:
  "length (ascii ''_mul@.xml'') = 9" "last (ascii ''_mul@.xml'') = 108"
  by (simp_all add: ascii_def)

lemma search_append:
  assumes g: "date_group nd g"
    and sfx: "sfx = ascii ''_mul@.xml'' \<or> sfx = ascii ''_mul@.xml'' @ [10]"
  shows "search nd (pre @ g @ sfx) = Some g"
proof (induction pre)
  case Nil
  have "match_at nd (g @ sfx) = Some g" using g sfx by (auto simp: match_at_Some_iff)
  moreover obtain c cs where "g @ sfx = c # cs" using date_group_length[OF g] by (cases g) auto
  ultimately show ?case by simp
next
  case (Cons c pre)
  have "match_at nd (c # pre @ g @ sfx) = None"
  proof (rule ccontr)
    assume "match_at nd (c # pre @ g @ sfx) \<noteq> None"
    then obtain g' where "match_at nd (c # pre @ g @ sfx) = Some g'" by auto
    then obtain sfx' where g': "date_group nd g'"
      and eq: "c # pre @ g @ sfx = g' @ sfx'"
      and sfx': "sfx' = ascii ''_mul@.xml'' \<or> sfx' = ascii ''_mul@.xml'' @ [10]"
      by (auto simp: match_at_Some_iff)
    from eq have "length (c # pre @ g @ sfx) = length (g' @ sfx')" by simp
    then have len: "Suc (length pre + length sfx) = length sfx'"
      using date_group_length[OF g] date_group_length[OF g'] by simp
    with sfx sfx' have s: "sfx = ascii ''_mul@.xml''" "sfx' = ascii ''_mul@.xml'' @ [10]"
      by (auto simp: suffix_lengths)
    from eq have "last (c # pre @ g @ sfx) = last (g' @ sfx')" by simp
    then show False unfolding s by (simp add: ascii_def)
  qed
  then show ?case using Cons.IH by simp
qed

lemma search_Some_iff:
  "search nd f = Some g \<longleftrightarrow>
   date_group nd g \<and>
   (suffix (g @ ascii ''_mul@.xml'') f \<or> suffix (g @ ascii ''_mul@.xml'' @ [10]) f)"
proof
  assume "search nd f = Some g"
  then obtain pre s where "f = pre @ s" "match_at nd s = Some g" using search_Some_D by blast
  then show "date_group nd g \<and>
   (suffix (g @ ascii ''_mul@.xml'') f \<or> suffix (g @ ascii ''_mul@.xml'' @ [10]) f)"
    by (auto simp: match_at_Some_iff suffix_def)
next
  assume a: "date_group nd g \<and>
   (suffix (g @ ascii ''_mul@.xml'') f \<or> suffix (g @ ascii ''_mul@.xml'' @ [10]) f)"
  then obtain pre sfx where "f = pre @ g @ sfx"
    "sfx = ascii ''_mul@.xml'' \<or> sfx = ascii ''_mul@.xml'' @ [10]"
    by (auto simp: suffix_def)
  then show "search nd f = Some g" using search_append a by blast
qed

lemma fold_add_match:
  "fold (add_match nd) files acc = acc \<union> {g. \<exists>f \<in> set files. search nd f = Some g}"
proof (induction files arbitrary: acc)
  case Nil
  show ?case by simp
next
  case (Cons f files)
  have "fold (add_match nd) (f # files) acc = fold (add_match nd) files (add_match nd f acc)"
    by simp
  also have "\<dots> = add_match nd f acc \<union> {g. \<exists>f \<in> set files. search nd f = Some g}"
    by (rule Cons.IH)
  also have "\<dots> = acc \<union> {g. \<exists>f \<in> set (f # files). search nd f = Some g}"
    by (cases "search nd f") (auto simp: add_match_def)
  finally show ?case .
qed

lemma collect_dates_eq:
  "collect_dates nd files = {g. \<exists>f \<in> set files. search nd f = Some g}"
  by (simp add: collect_dates_def fold_add_match)

lemma finite_collect_dates: "finite (collect_dates nd files)"
proof -
  have "collect_dates nd files \<subseteq> (\<lambda>f. the (search nd f)) ` set files"
    by (force simp: collect_dates_eq)
  then show ?thesis by (rule finite_surj[rotated]) simp
qed

text \<open>
  Digits outside ASCII are digits for \<^verbatim>\<open>\d\<close>: with the Arabic-Indic digits in the table, a
  name written with them is matched.
\<close>

lemma unicode_digits_match:
  "search arabic_indic_digit
     ([0x662, 0x660, 0x662, 0x666, 45, 0x660, 0x662, 45, 0x660, 0x661] @ ascii ''_mul@.xml'') =
   Some [0x662, 0x660, 0x662, 0x666, 45, 0x660, 0x662, 45, 0x660, 0x661]"
  by (simp add: ascii_def match_at_def date_group_def regex_digit_def arabic_indic_digit_def)

text \<open>A file name the fetch script gives to a valid date is one the index generator reads back.\<close>

lemma written_names_are_indexed:
  "valid_date d \<Longrightarrow> search nd (file_name_for (isoformat d)) = Some (isoformat d)"
  using search_append[OF isoformat_date_group, of d "ascii ''_mul@.xml''" nd "[]"]
  by (simp add: file_name_for_def)

text \<open>
  C5, as amended. The list of dates is sorted in ascending order and has no duplicates.
  A string is in it exactly when it has the shape of the date group (four digits, a
  hyphen, two digits, a hyphen, two digits) and some path of the listing ends with that
  string followed by \<^verbatim>\<open>_mul@.xml\<close>, or with that string, \<^verbatim>\<open>_mul@.xml\<close> and one final
  newline. Paths that do not match add nothing.
\<close>

theorem index_characterised:
  "sorted (sorted_dates nd files) \<and> distinct (sorted_dates nd files) \<and>
   (\<forall>g. g \<in> set (sorted_dates nd files) \<longleftrightarrow>
      date_group nd g \<and>
      (\<exists>f \<in> set files. suffix (g @ ascii ''_mul@.xml'') f \<or>
                          suffix (g @ ascii ''_mul@.xml'' @ [10]) f))"
  using finite_collect_dates[of nd files]
  by (auto simp: sorted_dates_def collect_dates_eq search_Some_iff)

text \<open>
  The claim as first stated asks for the suffix at the very end of the path. The path
  \<^verbatim>\<open>2026-02-01_mul@.xml\<close> followed by a newline does not end with \<^verbatim>\<open>_mul@.xml\<close>, yet
  its date is extracted, because \<^verbatim>\<open>$\<close> also matches before a final newline.
\<close>

theorem index_newline_counterexample:
  "sorted_dates arabic_indic_digit [ascii ''2026-02-01_mul@.xml'' @ [10]] = [ascii ''2026-02-01''] \<and>
   \<not> suffix (ascii ''_mul@.xml'') (ascii ''2026-02-01_mul@.xml'' @ [10])"
proof -
  have "search arabic_indic_digit (ascii ''2026-02-01_mul@.xml'' @ [10]) = Some (ascii ''2026-02-01'')"
    by (simp add: ascii_def match_at_def date_group_def regex_digit_def)
  then have "collect_dates arabic_indic_digit [ascii ''2026-02-01_mul@.xml'' @ [10]] = {ascii ''2026-02-01''}"
    by (simp add: collect_dates_def add_match_def)
  then have "sorted_dates arabic_indic_digit [ascii ''2026-02-01_mul@.xml'' @ [10]] = [ascii ''2026-02-01'']"
    by (simp add: sorted_dates_def)
  moreover have "\<not> suffix (ascii ''_mul@.xml'') (ascii ''2026-02-01_mul@.xml'' @ [10])"
    by (simp add: ascii_def suffix_def append_eq_append_conv2 append_eq_Cons_conv Cons_eq_append_conv)
  ultimately show ?thesis by simp
qed

text \<open>
  C9. The extraction does not check that the digits name a calendar day: the path
  \<^verbatim>\<open>2026-99-99_mul@.xml\<close> yields \<^verbatim>\<open>2026-99-99\<close>, the ISO form of no valid date. Characters
  before the date do not prevent a match: \<^verbatim>\<open>x2026-02-01_mul@.xml\<close> yields \<^verbatim>\<open>2026-02-01\<close>,
  and so does any prefix before any string of the date group's shape.
\<close>

theorem extraction_does_not_validate:
  "sorted_dates nd [ascii ''2026-99-99_mul@.xml''] = [ascii ''2026-99-99''] \<and>
   (\<forall>d. valid_date d \<longrightarrow> isoformat d \<noteq> ascii ''2026-99-99'') \<and>
   sorted_dates nd [ascii ''x2026-02-01_mul@.xml''] = [ascii ''2026-02-01''] \<and>
   (\<forall>pre g. date_group nd g \<longrightarrow> sorted_dates nd [pre @ g @ ascii ''_mul@.xml''] = [g])"
proof -
  have gen: "sorted_dates nd [pre @ g @ ascii ''_mul@.xml''] = [g]" if "date_group nd g" for pre g
  proof -
    have "search nd (pre @ g @ ascii ''_mul@.xml'') = Some g"
      using search_append[OF that] by simp
    then show ?thesis by (simp add: sorted_dates_def collect_dates_def add_match_def)
  qed
  have g1: "date_group nd (ascii ''2026-99-99'')" and g2: "date_group nd (ascii ''2026-02-01'')"
    by (simp_all add: date_group_def regex_digit_def ascii_def)
  have "sorted_dates nd [[] @ ascii ''2026-99-99'' @ ascii ''_mul@.xml''] = [ascii ''2026-99-99'']"
    using gen[OF g1] .
  then have a: "sorted_dates nd [ascii ''2026-99-99_mul@.xml''] = [ascii ''2026-99-99'']"
    by (simp add: ascii_def)
  have "sorted_dates nd [ascii ''x'' @ ascii ''2026-02-01'' @ ascii ''_mul@.xml''] = [ascii ''2026-02-01'']"
    using gen[OF g2] .
  then have b: "sorted_dates nd [ascii ''x2026-02-01_mul@.xml''] = [ascii ''2026-02-01'']"
    by (simp add: ascii_def)
  have c: "isoformat d \<noteq> ascii ''2026-99-99''" if "valid_date d" for d
  proof
    assume "isoformat d = ascii ''2026-99-99''"
    then have "48 + month d div 10 = 57"
      by (simp add: isoformat_valid[OF that] ascii_def)
    moreover have "month d \<le> 12" using that by (simp add: valid_date_def)
    ultimately show False by simp
  qed
  show ?thesis using a b c gen by blast
qed

theorem extraction_does_not_validate_witness:
  "date_group arabic_indic_digit (ascii ''2026-99-99'') \<and>
   sorted_dates arabic_indic_digit [ascii ''some/dir/'' @ ascii ''2026-99-99'' @ ascii ''_mul@.xml''] =
     [ascii ''2026-99-99''] \<and>
   valid_date \<lparr>year = 2026, month = 2, day = 10\<rparr> \<and>
   isoformat \<lparr>year = 2026, month = 2, day = 10\<rparr> \<noteq> ascii ''2026-99-99''"
proof -
  have h: "date_group arabic_indic_digit (ascii ''2026-99-99'')"
    by (simp add: date_group_def regex_digit_def ascii_def)
  have v: "valid_date \<lparr>year = 2026, month = 2, day = 10\<rparr>"
    by (simp add: valid_date_def days_in_month_def)
  from extraction_does_not_validate [of arabic_indic_digit] h v show ?thesis by blast
qed

section \<open>The upload script stops when its directory is missing\<close>

text \<open>
  C6. When \<^verbatim>\<open>DAIL_DIR\<close> does not exist the script ends with \<^verbatim>\<open>SystemExit\<close> and has done
  nothing before: no file was listed and \<^verbatim>\<open>upload_large_folder\<close> was not called.
\<close>

theorem upload_needs_directory:
  assumes "\<not> dail_dir_exists w"
  shows "upload_main w = ([], SystemExit (ascii ''DAIL_DIR not found: '' @ DAIL_DIR)) \<and>
         Rglob DAIL_DIR \<notin> set (fst (upload_main w)) \<and>
         Upload_large_folder REPO_ID DAIL_DIR \<notin> set (fst (upload_main w))"
  using assms by (simp add: upload_main_def)

theorem upload_needs_directory_witness:
  "\<not> dail_dir_exists \<lparr>dail_dir_exists = False, xml_files = [ascii ''2026-02-05_mul@.xml''],
                       upload_raises = None\<rparr> \<and>
   upload_main \<lparr>dail_dir_exists = False, xml_files = [ascii ''2026-02-05_mul@.xml''],
                upload_raises = None\<rparr> =
     ([], SystemExit (ascii ''DAIL_DIR not found: '' @ DAIL_DIR))"
proof -
  have h: "\<not> dail_dir_exists \<lparr>dail_dir_exists = False, xml_files = [ascii ''2026-02-05_mul@.xml''],
                       upload_raises = None\<rparr>"
    by simp
  from upload_needs_directory [OF h] h show ?thesis by blast
qed

end
